theory Spec2Isabelle
  imports Main "HOL-Library.Sublist" "HOL-Library.Char_ord" "HOL-Library.List_Lexorder"
begin

section \<open>The catalog page of the Miden ecosystem (src/app/page.tsx)\<close>

text \<open>
  The page keeps a fixed list of projects, a search term and a set of selected tags, and
  derives from them the tag vocabulary (\<open>getAllUniqueTags\<close>) and the list of projects
  it shows (\<open>filteredProjects\<close>). The embedding follows the source function by
  function. A JavaScript string is the list of its code units, an array is a list, and
  a \<open>Set\<close> is the list of its members in insertion order.
\<close>

subsection \<open>Data\<close>

text \<open>The interface \<open>Project\<close> (lines 5-12). The field \<open>id\<close> is written \<open>id'\<close>.\<close>

record Project =
  id' :: int
  name :: string
  description :: string
  link :: string
  imageUrl :: string
  tags :: "string list"

text \<open>The constant \<open>allProjects\<close> (lines 14-24).\<close>

definition allProjects :: "Project list" where
  "allProjects =
     [\<lparr>id' = 1,
       name = ''Miden Name Service'',
       description = ''A decentralized naming system for the Miden ecosystem.'',
       link = ''https://miden-name-service-p55kix6fq-paulhenryks-projects.vercel.app/'',
       imageUrl = ''miden_name_service.png'',
       tags = [''Naming'', ''Utility'', ''Infrastructure'']\<rparr>]"

subsection \<open>The runtime's strings, arrays and sets\<close>

text \<open>
  \<open>String.prototype.includes\<close>: the search string occurs in the receiver at some
  position. \<open>startsAt s t\<close> compares \<open>t\<close> with the code units at the head of \<open>s\<close>;
  \<open>includes'\<close> (the source's \<open>includes\<close>) tries every position from the left.
\<close>

fun startsAt :: "string \<Rightarrow> string \<Rightarrow> bool" where
  "startsAt s [] = True"
| "startsAt [] (c # t) = False"
| "startsAt (d # s) (c # t) = (d = c \<and> startsAt s t)"

fun includes' :: "string \<Rightarrow> string \<Rightarrow> bool" where
  "includes' [] t = startsAt [] t"
| "includes' (d # s) t = (startsAt (d # s) t \<or> includes' s t)"

text \<open>
  \<open>String.prototype.toLowerCase\<close> belongs to the runtime, not to the page. The page's
  functions take the case folding as the parameter \<open>lower\<close>, so that what is proved of
  them holds for the folding of the full character set. \<open>toLowerCase\<close> is the folding
  of the letters A to Z, which is what the catalog's texts need; it runs the model on
  concrete inputs.
\<close>

definition lowerUnit :: "char \<Rightarrow> char" where
  "lowerUnit c =
     (if CHR ''A'' \<le> c \<and> c \<le> CHR ''Z'' then char_of (of_char c + (32 :: nat)) else c)"

definition toLowerCase :: "string \<Rightarrow> string" where
  "toLowerCase s = map lowerUnit s"

text \<open>
  \<open>Array.prototype.some\<close>, \<open>every\<close> and \<open>filter\<close> visit the elements from index 0
  upwards; \<open>some\<close> stops at the first element that passes, \<open>every\<close> at the first that
  fails, and \<open>filter\<close> appends each element that passes to a new array.
\<close>

fun some :: "'a list \<Rightarrow> ('a \<Rightarrow> bool) \<Rightarrow> bool" where
  "some [] f = False"
| "some (x # xs) f = (if f x then True else some xs f)"

fun every :: "'a list \<Rightarrow> ('a \<Rightarrow> bool) \<Rightarrow> bool" where
  "every [] f = True"
| "every (x # xs) f = (if f x then every xs f else False)"

fun filter_into :: "'a list \<Rightarrow> 'a list \<Rightarrow> ('a \<Rightarrow> bool) \<Rightarrow> 'a list" where
  "filter_into kept [] f = kept"
| "filter_into kept (x # xs) f = filter_into (if f x then kept @ [x] else kept) xs f"

definition filter_array :: "'a list \<Rightarrow> ('a \<Rightarrow> bool) \<Rightarrow> 'a list" where
  "filter_array xs f = filter_into [] xs f"

text \<open>
  A \<open>Set\<close> keeps its members in insertion order and holds none of them twice:
  \<open>add\<close> of a member changes nothing, \<open>add\<close> of a new value puts it last, and
  \<open>Array.from\<close> reads the members in that order.
\<close>

type_synonym 'a js_set = "'a list"

definition new_Set :: "'a js_set" where
  "new_Set = []"

definition Set_has :: "'a js_set \<Rightarrow> 'a \<Rightarrow> bool" where
  "Set_has s x = (x \<in> set s)"

definition Set_add :: "'a js_set \<Rightarrow> 'a \<Rightarrow> 'a js_set" where
  "Set_add s x = (if Set_has s x then s else s @ [x])"

definition Set_delete :: "'a js_set \<Rightarrow> 'a \<Rightarrow> 'a js_set" where
  "Set_delete s x = removeAll x s"

definition Array_from :: "'a js_set \<Rightarrow> 'a list" where
  "Array_from s = s"

subsection \<open>The tag vocabulary\<close>

text \<open>
  \<open>getAllUniqueTags\<close> (lines 27-33): the two nested \<open>forEach\<close> loops add every tag of
  every project to \<open>tagSet\<close>; \<open>sort()\<close> without a comparator orders strings by their
  code units, which is the lexicographic order of \<open>string\<close>.
\<close>

definition getAllUniqueTags :: "Project list \<Rightarrow> string list" where
  "getAllUniqueTags projects =
     (let tagSet = fold (\<lambda>project tagSet.
                      fold (\<lambda>tag tagSet. Set_add tagSet tag) (tags project) tagSet)
                    projects new_Set
      in sort (Array_from tagSet))"

subsection \<open>The page's state and the visible projects\<close>

text \<open>
  The two \<open>useState\<close> cells of the component (lines 38-39) and their initial values.
\<close>

record PageState =
  searchTerm :: string
  selectedTags :: "string js_set"

definition initialState :: PageState where
  "initialState = \<lparr>searchTerm = [], selectedTags = new_Set\<rparr>"

text \<open>
  The two local constants of the filter callback (lines 64-72). \<open>term\<close> is the search
  term already lower-cased (line 60), \<open>activeTags\<close> the array of the selected tags.
\<close>

definition matchesSearch :: "(string \<Rightarrow> string) \<Rightarrow> string \<Rightarrow> Project \<Rightarrow> bool" where
  "matchesSearch lower term project =
     (term = [] \<or>
      includes' (lower (name project)) term \<or>
      includes' (lower (description project)) term \<or>
      some (tags project) (\<lambda>tag. includes' (lower tag) term))"

definition matchesTags :: "(string \<Rightarrow> string) \<Rightarrow> string list \<Rightarrow> Project \<Rightarrow> bool" where
  "matchesTags lower activeTags project =
     (length activeTags = 0 \<or>
      every activeTags (\<lambda>selectedTag.
        some (tags project) (\<lambda>projectTag. lower projectTag = lower selectedTag)))"

text \<open>
  \<open>filteredProjects\<close> (lines 59-76). The source reads the module constant
  \<open>allProjects\<close>; here the catalog is the argument \<open>projects\<close>.
\<close>

definition filteredProjects :: "(string \<Rightarrow> string) \<Rightarrow> Project list \<Rightarrow> PageState \<Rightarrow> Project list" where
  "filteredProjects lower projects st =
     (let term = lower (searchTerm st);
          activeTags = Array_from (selectedTags st)
      in filter_array projects (\<lambda>project.
           matchesSearch lower term project \<and> matchesTags lower activeTags project))"

subsection \<open>The event handlers\<close>

text \<open>
  The setters of the two state cells. \<open>setSelectedTags\<close> takes the updater function of
  line 48; a call with a plain value, as on lines 118 and 177, is the constant updater.
\<close>

definition setSearchTerm :: "string \<Rightarrow> PageState \<Rightarrow> PageState" where
  "setSearchTerm typed st = st\<lparr>searchTerm := typed\<rparr>"

definition setSelectedTags :: "(string js_set \<Rightarrow> string js_set) \<Rightarrow> PageState \<Rightarrow> PageState" where
  "setSelectedTags updater st = st\<lparr>selectedTags := updater (selectedTags st)\<rparr>"

text \<open>\<open>handleSearchChange\<close> (lines 43-45), applied to \<open>event.target.value\<close>.\<close>

definition handleSearchChange :: "string \<Rightarrow> PageState \<Rightarrow> PageState" where
  "handleSearchChange target_value st = setSearchTerm target_value st"

text \<open>\<open>handleTagClick\<close> (lines 47-57); \<open>new Set(prevSelectedTags)\<close> is a copy.\<close>

definition handleTagClick :: "string \<Rightarrow> PageState \<Rightarrow> PageState" where
  "handleTagClick tag st =
     setSelectedTags (\<lambda>prevSelectedTags.
       let newSelectedTags = prevSelectedTags
       in if Set_has newSelectedTags tag
          then Set_delete newSelectedTags tag
          else Set_add newSelectedTags tag) st"

text \<open>The \<open>onClick\<close> of the button "Clear Filters" (line 118).\<close>

definition clearFilters :: "PageState \<Rightarrow> PageState" where
  "clearFilters st = setSelectedTags (\<lambda>_. new_Set) st"

text \<open>
  The \<open>onClick\<close> of the button "Clear Search & Filters" (line 177): the two setters,
  one after the other, within one handler.
\<close>

definition clearSearchAndFilters :: "PageState \<Rightarrow> PageState" where
  "clearSearchAndFilters st = setSearchTerm [] (setSelectedTags (\<lambda>_. new_Set) st)"

subsection \<open>Notions of the specification\<close>

text \<open>
  The specification speaks of one text being a substring of another, and of a search
  term with its surrounding white space trimmed. Neither is computed by the page; both
  are stated here in the specification's words, to compare the code with. \<open>trim\<close>
  removes the white space of the ASCII range at both ends.
\<close>

definition substring :: "string \<Rightarrow> string \<Rightarrow> bool" where
  "substring t s = (\<exists>before after. s = before @ t @ after)"

definition isWhiteSpace :: "char \<Rightarrow> bool" where
  "isWhiteSpace c = (c \<in> set [CHR '' '', CHR 0x09, CHR 0x0A, CHR 0x0B, CHR 0x0C, CHR 0x0D])"

definition trim :: "string \<Rightarrow> string" where
  "trim s = rev (dropWhile isWhiteSpace (rev (dropWhile isWhiteSpace s)))"

section \<open>Properties\<close>

subsection \<open>The runtime functions compute what their names say\<close>

lemma startsAt_prefix: "startsAt s t \<longleftrightarrow> prefix t s"
  by (induction s t rule: startsAt.induct) auto

lemma includes_sublist: "includes' s t \<longleftrightarrow> sublist t s"
  by (induction s) (simp_all add: startsAt_prefix sublist_Cons_right)

lemma includes_substring: "includes' s t \<longleftrightarrow> substring t s"
  by (simp add: includes_sublist sublist_def substring_def)

lemma substring_empty: "substring [] s"
  unfolding substring_def by (intro exI[of _ "[]"] exI[of _ s]) simp

lemma some_iff: "some xs f \<longleftrightarrow> (\<exists>x\<in>set xs. f x)"
  by (induction xs) simp_all

lemma every_iff: "every xs f \<longleftrightarrow> (\<forall>x\<in>set xs. f x)"
  by (induction xs) simp_all

text \<open>The accumulator of the filter loop is generalised for the induction.\<close>

lemma filter_into_eq: "filter_into kept xs f = kept @ filter f xs"
  by (induction xs arbitrary: kept) simp_all

lemma filter_array_eq: "filter_array xs f = filter f xs"
  by (simp add: filter_array_def filter_into_eq)

lemma set_Set_add: "set (Set_add s x) = insert x (set s)"
  by (auto simp: Set_add_def Set_has_def)

lemma distinct_Set_add: "distinct s \<Longrightarrow> distinct (Set_add s x)"
  by (simp add: Set_add_def Set_has_def)

lemma set_add_all: "set (fold (\<lambda>tag tagSet. Set_add tagSet tag) ts s) = set s \<union> set ts"
  by (induction ts arbitrary: s) (simp_all add: set_Set_add)

lemma distinct_add_all:
  "distinct s \<Longrightarrow> distinct (fold (\<lambda>tag tagSet. Set_add tagSet tag) ts s)"
  by (induction ts arbitrary: s) (simp_all add: distinct_Set_add)

lemma set_collect_tags:
  "set (fold (\<lambda>project tagSet.
          fold (\<lambda>tag tagSet. Set_add tagSet tag) (tags project) tagSet) ps s)
     = set s \<union> (\<Union>p\<in>set ps. set (tags p))"
  by (induction ps arbitrary: s) (auto simp: set_add_all)

lemma distinct_collect_tags:
  "distinct s \<Longrightarrow>
   distinct (fold (\<lambda>project tagSet.
      fold (\<lambda>tag tagSet. Set_add tagSet tag) (tags project) tagSet) ps s)"
  by (induction ps arbitrary: s) (simp_all add: distinct_add_all)

subsection \<open>The two predicates and the filter\<close>

lemma matchesSearch_iff:
  "matchesSearch lower term project \<longleftrightarrow>
     substring term (lower (name project)) \<or>
     substring term (lower (description project)) \<or>
     (\<exists>tag\<in>set (tags project). substring term (lower tag))"
proof (cases "term = []")
  case True
  then show ?thesis by (simp add: matchesSearch_def substring_empty)
next
  case False
  then show ?thesis by (simp add: matchesSearch_def some_iff includes_substring)
qed

lemma matchesTags_iff:
  "matchesTags lower activeTags project \<longleftrightarrow>
     (\<forall>selectedTag\<in>set activeTags.
        \<exists>projectTag\<in>set (tags project). lower projectTag = lower selectedTag)"
  by (cases activeTags) (simp_all add: matchesTags_def every_iff some_iff)

lemma filteredProjects_eq:
  "filteredProjects lower projects st =
     filter (\<lambda>project. matchesSearch lower (lower (searchTerm st)) project \<and>
                       matchesTags lower (selectedTags st) project) projects"
  by (simp add: filteredProjects_def filter_array_eq Array_from_def)

lemma filteredProjects_cong_set:
  "searchTerm st' = searchTerm st \<Longrightarrow> set (selectedTags st') = set (selectedTags st) \<Longrightarrow>
   filteredProjects lower projects st' = filteredProjects lower projects st"
  by (simp add: filteredProjects_eq matchesTags_iff)

lemma filteredProjects_initialState:
  "lower [] = [] \<Longrightarrow> filteredProjects lower projects initialState = projects"
  by (simp add: filteredProjects_eq initialState_def new_Set_def matchesSearch_def
      matchesTags_def)

lemma subseq_filter_stronger:
  "(\<And>x. x \<in> set xs \<Longrightarrow> P x \<Longrightarrow> Q x) \<Longrightarrow> subseq (filter P xs) (filter Q xs)"
proof -
  assume imp: "\<And>x. x \<in> set xs \<Longrightarrow> P x \<Longrightarrow> Q x"
  have "filter P xs = filter P (filter Q xs)"
    using imp by (auto intro: filter_cong)
  then show ?thesis
    by (metis subseq_filter_left)
qed

lemma matchesTags_antitone:
  "set S \<subseteq> set T \<Longrightarrow> matchesTags lower T project \<Longrightarrow> matchesTags lower S project"
  by (auto simp: matchesTags_iff)

subsection \<open>The tag toggle\<close>

lemma selectedTags_handleTagClick:
  "selectedTags (handleTagClick tag st) =
     (if tag \<in> set (selectedTags st) then removeAll tag (selectedTags st)
      else selectedTags st @ [tag])"
  by (simp add: handleTagClick_def setSelectedTags_def Set_has_def Set_delete_def Set_add_def)

lemma searchTerm_handleTagClick: "searchTerm (handleTagClick tag st) = searchTerm st"
  by (simp add: handleTagClick_def setSelectedTags_def)

lemma set_toggle:
  "set (selectedTags (handleTagClick tag st)) =
     (if tag \<in> set (selectedTags st) then set (selectedTags st) - {tag}
      else insert tag (set (selectedTags st)))"
  by (simp add: selectedTags_handleTagClick)

lemma set_toggle_twice:
  "set (selectedTags (handleTagClick tag (handleTagClick tag st))) = set (selectedTags st)"
  by (auto simp: set_toggle)

lemma distinct_toggle:
  "distinct (selectedTags st) \<Longrightarrow> distinct (selectedTags (handleTagClick tag st))"
  by (simp add: selectedTags_handleTagClick distinct_removeAll)

section \<open>The claims of the specification\<close>

text \<open>
  Claim C1. For every catalog, search term and set of selected tags, the visible set
  \<open>filteredProjects\<close> is the catalog with the projects removed that fail the search
  predicate or the tag predicate: it is a subsequence of the catalog, in the catalog's
  order, and its members are the catalog's projects that pass both predicates.
\<close>

theorem visible_set_is_ordered_selection:
  "filteredProjects lower projects st =
     filter (\<lambda>project. matchesSearch lower (lower (searchTerm st)) project \<and>
                       matchesTags lower (Array_from (selectedTags st)) project) projects
   \<and> subseq (filteredProjects lower projects st) projects
   \<and> set (filteredProjects lower projects st) =
       {project \<in> set projects.
          matchesSearch lower (lower (searchTerm st)) project \<and>
          matchesTags lower (Array_from (selectedTags st)) project}"
  by (simp add: filteredProjects_eq Array_from_def)

theorem visible_set_is_ordered_selection_witness:
  "filteredProjects toLowerCase allProjects \<lparr>searchTerm = ''Name'', selectedTags = [''UTILITY'']\<rparr>
     = allProjects
   \<and> filteredProjects toLowerCase allProjects \<lparr>searchTerm = ''Name'', selectedTags = [''Util'']\<rparr>
     = []
   \<and> subseq (filteredProjects toLowerCase allProjects
               \<lparr>searchTerm = ''Name'', selectedTags = [''UTILITY'']\<rparr>) allProjects"
proof -
  have "filteredProjects toLowerCase allProjects
          \<lparr>searchTerm = ''Name'', selectedTags = [''UTILITY'']\<rparr> = allProjects"
    by code_simp
  moreover have "filteredProjects toLowerCase allProjects
          \<lparr>searchTerm = ''Name'', selectedTags = [''Util'']\<rparr> = []"
    by code_simp
  moreover have "subseq (filteredProjects toLowerCase allProjects
               \<lparr>searchTerm = ''Name'', selectedTags = [''UTILITY'']\<rparr>) allProjects"
    using visible_set_is_ordered_selection [where lower = toLowerCase and projects = allProjects
        and st = "\<lparr>searchTerm = ''Name'', selectedTags = [''UTILITY'']\<rparr>"]
    by blast
  ultimately show ?thesis by blast
qed

text \<open>
  Claim C2. For every project and every search term, the search predicate holds if and
  only if the lower-cased term is a substring of the lower-cased name, or of the
  lower-cased description, or of at least one lower-cased tag of the project. (The
  equivalence needs no assumption that the term is not empty: the empty text is a
  substring of every text.) The term is not trimmed: there is a term with white space
  at an end, and a project, such that the project matches the trimmed term and does not
  match the term as typed.
\<close>

theorem search_predicate_is_substring_test:
  "(matchesSearch lower (lower typed) project \<longleftrightarrow>
      substring (lower typed) (lower (name project)) \<or>
      substring (lower typed) (lower (description project)) \<or>
      (\<exists>tag\<in>set (tags project). substring (lower typed) (lower tag)))
   \<and> (\<exists>padded project'.
        trim padded \<noteq> padded \<and>
        matchesSearch toLowerCase (toLowerCase (trim padded)) project' \<and>
        \<not> matchesSearch toLowerCase (toLowerCase padded) project')"
proof -
  have "trim ''service '' \<noteq> ''service '' \<and>
        matchesSearch toLowerCase (toLowerCase (trim ''service '')) (hd allProjects) \<and>
        \<not> matchesSearch toLowerCase (toLowerCase ''service '') (hd allProjects)"
    by code_simp
  then have "\<exists>padded project'.
        trim padded \<noteq> padded \<and>
        matchesSearch toLowerCase (toLowerCase (trim padded)) project' \<and>
        \<not> matchesSearch toLowerCase (toLowerCase padded) project'"
    by blast
  then show ?thesis
    using matchesSearch_iff [of lower "lower typed" project] by simp
qed

theorem search_predicate_is_substring_test_witness:
  "matchesSearch toLowerCase (toLowerCase ''NAMING'') (hd allProjects) \<and>
   (substring (toLowerCase ''NAMING'') (toLowerCase (name (hd allProjects))) \<or>
    substring (toLowerCase ''NAMING'') (toLowerCase (description (hd allProjects))) \<or>
    (\<exists>tag\<in>set (tags (hd allProjects)).
        substring (toLowerCase ''NAMING'') (toLowerCase tag)))"
proof -
  have run: "matchesSearch toLowerCase (toLowerCase ''NAMING'') (hd allProjects)"
    by code_simp
  with search_predicate_is_substring_test [of toLowerCase "''NAMING''" "hd allProjects"]
  show ?thesis
    by blast
qed

text \<open>
  Claim C3. For every project and every set of selected tags, the tag predicate holds
  if and only if every selected tag is equal, after lower-casing both, to at least one
  of the project's own tags. In particular, for two tags A and B that differ after
  lower-casing, a project P1 with the tags A, B and a project P2 with the tag A, both
  passing the search predicate: selecting A and B shows exactly P1, and selecting A
  shows P1 and P2.
\<close>

theorem tag_predicate_is_conjunctive:
  "(matchesTags lower (Array_from selected) project \<longleftrightarrow>
      (\<forall>selectedTag\<in>set selected.
         \<exists>projectTag\<in>set (tags project). lower projectTag = lower selectedTag))
   \<and> (lower A \<noteq> lower B \<and> tags p1 = [A, B] \<and> tags p2 = [A] \<and>
       matchesSearch lower (lower typed) p1 \<and> matchesSearch lower (lower typed) p2 \<longrightarrow>
        (set both = {A, B} \<longrightarrow>
           filteredProjects lower [p1, p2] \<lparr>searchTerm = typed, selectedTags = both\<rparr> = [p1]) \<and>
        (set only = {A} \<longrightarrow>
           filteredProjects lower [p1, p2] \<lparr>searchTerm = typed, selectedTags = only\<rparr>
             = [p1, p2]))"
  by (auto simp: Array_from_def matchesTags_iff filteredProjects_eq)

theorem tag_predicate_is_conjunctive_witness:
  "filteredProjects toLowerCase
     [\<lparr>id' = 1, name = ''P1'', description = [], link = [], imageUrl = [], tags = [''A'', ''B'']\<rparr>,
      \<lparr>id' = 2, name = ''P2'', description = [], link = [], imageUrl = [], tags = [''A'']\<rparr>]
     \<lparr>searchTerm = [], selectedTags = [''B'', ''A'']\<rparr>
   = [\<lparr>id' = 1, name = ''P1'', description = [], link = [], imageUrl = [], tags = [''A'', ''B'']\<rparr>]
  \<and> filteredProjects toLowerCase
     [\<lparr>id' = 1, name = ''P1'', description = [], link = [], imageUrl = [], tags = [''A'', ''B'']\<rparr>,
      \<lparr>id' = 2, name = ''P2'', description = [], link = [], imageUrl = [], tags = [''A'']\<rparr>]
     \<lparr>searchTerm = [], selectedTags = [''A'']\<rparr>
   = [\<lparr>id' = 1, name = ''P1'', description = [], link = [], imageUrl = [], tags = [''A'', ''B'']\<rparr>,
      \<lparr>id' = 2, name = ''P2'', description = [], link = [], imageUrl = [], tags = [''A'']\<rparr>]"
proof -
  let ?p1 = "\<lparr>id' = 1, name = ''P1'', description = [], link = [], imageUrl = [],
              tags = [''A'', ''B'']\<rparr>"
  let ?p2 = "\<lparr>id' = 2, name = ''P2'', description = [], link = [], imageUrl = [],
              tags = [''A'']\<rparr>"
  have ab: "toLowerCase ''A'' \<noteq> toLowerCase ''B''"
    by code_simp
  have s1: "matchesSearch toLowerCase (toLowerCase []) ?p1"
    by code_simp
  have s2: "matchesSearch toLowerCase (toLowerCase []) ?p2"
    by code_simp
  have both: "set [''B'', ''A''] = {''A'', ''B''}"
    by auto
  show ?thesis
    using tag_predicate_is_conjunctive [where lower = toLowerCase and A = "''A''"
        and B = "''B''" and ?p1.0 = "?p1" and ?p2.0 = "?p2" and typed = "[]"
        and both = "[''B'', ''A'']" and only = "[''A'']"]
      ab s1 s2 both
    by simp
qed

text \<open>
  Claim C4. For every catalog, with a case folding that leaves the empty text empty:
  when the search term is empty the search predicate holds for every project, and when
  no tag is selected the tag predicate holds for every project. Hence in the initial
  state the visible set is the whole catalog in its order; with an empty term alone the
  tag predicate decides, and with no selected tag alone the search predicate decides.
\<close>

theorem empty_filters_show_catalog:
  assumes "lower [] = []"
  shows "matchesSearch lower (lower []) project
    \<and> matchesTags lower (Array_from new_Set) project
    \<and> filteredProjects lower projects initialState = projects
    \<and> filteredProjects lower projects \<lparr>searchTerm = [], selectedTags = selected\<rparr>
        = filter (matchesTags lower selected) projects
    \<and> filteredProjects lower projects \<lparr>searchTerm = typed, selectedTags = new_Set\<rparr>
        = filter (matchesSearch lower (lower typed)) projects"
proof -
  have s: "matchesSearch lower (lower []) p" for p
    using assms by (simp add: matchesSearch_def)
  have t: "matchesTags lower (Array_from new_Set) p" for p
    by (simp add: matchesTags_def Array_from_def new_Set_def)
  have t': "matchesTags lower new_Set p" for p
    using t by (simp add: Array_from_def)
  show ?thesis
    using s t t' by (simp add: filteredProjects_eq initialState_def)
qed

theorem empty_filters_show_catalog_witness:
  "toLowerCase [] = []
   \<and> filteredProjects toLowerCase allProjects initialState = allProjects"
proof -
  have e: "toLowerCase [] = []"
    by (simp add: toLowerCase_def)
  from empty_filters_show_catalog [where lower = toLowerCase and projects = allProjects, OF e] e
  show ?thesis
    by blast
qed

text \<open>
  Claim C5. For every catalog, the tag vocabulary \<open>getAllUniqueTags\<close> has as members
  exactly the tags of the catalog's projects, two tags being the same when they are
  equal as strings; no string occurs in it twice; and it is sorted ascending in the
  lexicographic order of strings. It is therefore the sorted enumeration of that set of
  tags. The vocabulary of the empty catalog is empty.
\<close>

theorem tag_vocabulary_sorted_unique:
  "set (getAllUniqueTags projects) = (\<Union>project\<in>set projects. set (tags project))
   \<and> distinct (getAllUniqueTags projects)
   \<and> sorted (getAllUniqueTags projects)
   \<and> getAllUniqueTags projects
        = sorted_list_of_set (\<Union>project\<in>set projects. set (tags project))
   \<and> getAllUniqueTags [] = []"
proof -
  have members: "set (getAllUniqueTags projects) = (\<Union>project\<in>set projects. set (tags project))"
    by (simp add: getAllUniqueTags_def Array_from_def new_Set_def set_collect_tags)
  have once: "distinct (getAllUniqueTags projects)"
    by (simp add: getAllUniqueTags_def Array_from_def new_Set_def distinct_collect_tags)
  have ascending: "sorted (getAllUniqueTags projects)"
    by (simp add: getAllUniqueTags_def)
  have "getAllUniqueTags projects = sorted_list_of_set (set (getAllUniqueTags projects))"
    using once ascending by (metis sorted_list_of_set.idem_if_sorted_distinct)
  moreover have "getAllUniqueTags [] = []"
    by (simp add: getAllUniqueTags_def Array_from_def new_Set_def)
  ultimately show ?thesis
    using members once ascending by simp
qed

theorem tag_vocabulary_sorted_unique_witness:
  "getAllUniqueTags
     [\<lparr>id' = 1, name = ''P1'', description = [], link = [], imageUrl = [],
        tags = [''b'', ''B'', ''a'']\<rparr>,
      \<lparr>id' = 2, name = ''P2'', description = [], link = [], imageUrl = [],
        tags = [''a'', ''ab'', ''b'']\<rparr>]
    = [''B'', ''a'', ''ab'', ''b'']
   \<and> sorted (getAllUniqueTags
     [\<lparr>id' = 1, name = ''P1'', description = [], link = [], imageUrl = [],
        tags = [''b'', ''B'', ''a'']\<rparr>,
      \<lparr>id' = 2, name = ''P2'', description = [], link = [], imageUrl = [],
        tags = [''a'', ''ab'', ''b'']\<rparr>])"
proof -
  let ?ps = "[\<lparr>id' = 1, name = ''P1'', description = [], link = [], imageUrl = [],
                tags = [''b'', ''B'', ''a'']\<rparr>,
              \<lparr>id' = 2, name = ''P2'', description = [], link = [], imageUrl = [],
                tags = [''a'', ''ab'', ''b'']\<rparr>]"
  have "getAllUniqueTags ?ps = [''B'', ''a'', ''ab'', ''b'']"
    by code_simp
  moreover have "sorted (getAllUniqueTags ?ps)"
    using tag_vocabulary_sorted_unique [of ?ps] by blast
  ultimately show ?thesis by blast
qed

text \<open>
  Claim C6. For every state and every tag, two clicks on the tag in succession leave
  the selected tags with the members they had: one click removes the tag if it is a
  member and adds it otherwise. The selection holds no tag twice afterwards if it held
  none twice before, a tag that was not selected leaves the whole state as it was, and
  the visible set after the two clicks is the visible set before them.
\<close>

theorem toggle_twice_restores_selection:
  "set (selectedTags (handleTagClick tag (handleTagClick tag st))) = set (selectedTags st)
   \<and> set (selectedTags (handleTagClick tag st)) =
       (if tag \<in> set (selectedTags st) then set (selectedTags st) - {tag}
        else insert tag (set (selectedTags st)))
   \<and> (distinct (selectedTags st) \<longrightarrow>
        distinct (selectedTags (handleTagClick tag (handleTagClick tag st))))
   \<and> (tag \<notin> set (selectedTags st) \<longrightarrow> handleTagClick tag (handleTagClick tag st) = st)
   \<and> filteredProjects lower projects (handleTagClick tag (handleTagClick tag st))
       = filteredProjects lower projects st"
proof -
  have "handleTagClick tag (handleTagClick tag st) = st" if "tag \<notin> set (selectedTags st)"
    using that
    by (simp add: handleTagClick_def setSelectedTags_def Set_has_def Set_delete_def Set_add_def)
  moreover have "filteredProjects lower projects (handleTagClick tag (handleTagClick tag st))
       = filteredProjects lower projects st"
    by (rule filteredProjects_cong_set) (simp_all add: searchTerm_handleTagClick set_toggle_twice)
  moreover have "distinct (selectedTags (handleTagClick tag (handleTagClick tag st)))"
    if "distinct (selectedTags st)"
    using that by (intro distinct_toggle)
  ultimately show ?thesis
    using set_toggle_twice [of tag st] set_toggle [of tag st] by blast
qed

theorem toggle_twice_restores_selection_witness:
  "selectedTags (handleTagClick ''Naming''
      (handleTagClick ''Naming'' \<lparr>searchTerm = ''x'', selectedTags = [''Naming'', ''Utility'']\<rparr>))
     = [''Utility'', ''Naming'']
   \<and> set (selectedTags (handleTagClick ''Naming''
      (handleTagClick ''Naming'' \<lparr>searchTerm = ''x'', selectedTags = [''Naming'', ''Utility'']\<rparr>)))
     = set [''Naming'', ''Utility'']"
proof -
  let ?st = "\<lparr>searchTerm = ''x'', selectedTags = [''Naming'', ''Utility'']\<rparr>"
  have "selectedTags (handleTagClick ''Naming'' (handleTagClick ''Naming'' ?st))
     = [''Utility'', ''Naming'']"
    by code_simp
  moreover have "set (selectedTags (handleTagClick ''Naming'' (handleTagClick ''Naming'' ?st)))
     = set [''Naming'', ''Utility'']"
    using toggle_twice_restores_selection [where tag = "''Naming''" and st = "?st"] by simp
  ultimately show ?thesis by blast
qed

text \<open>
  Claim C7. For every prior state, the handler of "Clear Search & Filters" yields the
  empty search term and the empty set of selected tags, which is the initial state. Both
  cells are reset by the one handler, so the next computation of the visible set reads
  both resets: with a case folding that leaves the empty text empty, it is the whole
  catalog.
\<close>

theorem clear_all_resets_state:
  "searchTerm (clearSearchAndFilters st) = []
   \<and> selectedTags (clearSearchAndFilters st) = new_Set
   \<and> set (selectedTags (clearSearchAndFilters st)) = {}
   \<and> clearSearchAndFilters st = initialState
   \<and> (lower [] = [] \<longrightarrow> filteredProjects lower projects (clearSearchAndFilters st) = projects)"
proof -
  have "clearSearchAndFilters st = initialState"
    by (simp add: clearSearchAndFilters_def setSearchTerm_def setSelectedTags_def
        initialState_def)
  then show ?thesis
    using filteredProjects_initialState [of lower projects]
    by (simp add: initialState_def new_Set_def)
qed

theorem clear_all_resets_state_witness:
  "clearSearchAndFilters \<lparr>searchTerm = ''zzz'', selectedTags = [''Naming'']\<rparr>
     = \<lparr>searchTerm = [], selectedTags = []\<rparr>
   \<and> filteredProjects toLowerCase allProjects
       (clearSearchAndFilters \<lparr>searchTerm = ''zzz'', selectedTags = [''Naming'']\<rparr>) = allProjects"
proof -
  have e: "toLowerCase [] = []"
    by (simp add: toLowerCase_def)
  note c = clear_all_resets_state
      [where st = "\<lparr>searchTerm = ''zzz'', selectedTags = [''Naming'']\<rparr>"
        and lower = toLowerCase and projects = allProjects]
  from c have "clearSearchAndFilters \<lparr>searchTerm = ''zzz'', selectedTags = [''Naming'']\<rparr>
     = \<lparr>searchTerm = [], selectedTags = []\<rparr>"
    by (simp add: initialState_def new_Set_def)
  moreover from c e have "filteredProjects toLowerCase allProjects
       (clearSearchAndFilters \<lparr>searchTerm = ''zzz'', selectedTags = [''Naming'']\<rparr>) = allProjects"
    by blast
  ultimately show ?thesis by blast
qed

text \<open>
  Claim C8. For every prior state, the handler of "Clear Filters" empties the set of
  selected tags and leaves the search term as it was; a click on a tag leaves the search
  term as it was; and a change of the search input replaces the search term by the text
  typed, as it is, and leaves the selected tags as they were.
\<close>

theorem handlers_change_one_cell:
  "searchTerm (clearFilters st) = searchTerm st
   \<and> selectedTags (clearFilters st) = new_Set
   \<and> searchTerm (handleTagClick tag st) = searchTerm st
   \<and> selectedTags (handleSearchChange typed st) = selectedTags st
   \<and> searchTerm (handleSearchChange typed st) = typed
   \<and> selectedTags (setSearchTerm typed st) = selectedTags st
   \<and> searchTerm (setSearchTerm typed st) = typed"
  by (simp add: clearFilters_def setSelectedTags_def handleSearchChange_def setSearchTerm_def
      searchTerm_handleTagClick)

theorem handlers_change_one_cell_witness:
  "clearFilters \<lparr>searchTerm = ''zzz'', selectedTags = [''Naming'']\<rparr>
     = \<lparr>searchTerm = ''zzz'', selectedTags = []\<rparr>
   \<and> searchTerm (handleTagClick ''Utility'' \<lparr>searchTerm = ''zzz'', selectedTags = [''Naming'']\<rparr>)
     = ''zzz''
   \<and> selectedTags (handleSearchChange '' a '' \<lparr>searchTerm = ''zzz'', selectedTags = [''Naming'']\<rparr>)
     = [''Naming'']
   \<and> searchTerm (handleSearchChange '' a '' \<lparr>searchTerm = ''zzz'', selectedTags = [''Naming'']\<rparr>)
     = '' a ''"
  using handlers_change_one_cell
      [where st = "\<lparr>searchTerm = ''zzz'', selectedTags = [''Naming'']\<rparr>"
        and tag = "''Utility''" and typed = "'' a ''"]
  by (simp add: new_Set_def clearFilters_def setSelectedTags_def)

text \<open>
  Claim C9. For every catalog and search term, if the set of selected tags has a member
  that, after lower-casing, equals no lower-cased tag of any project of the catalog, the
  visible set is empty.
\<close>

theorem unmatched_tag_empties_visible_set:
  assumes "Set_has (selectedTags st) tag"
    and "\<forall>project\<in>set projects. \<forall>projectTag\<in>set (tags project).
           lower projectTag \<noteq> lower tag"
  shows "filteredProjects lower projects st = []"
  using assms
  by (auto simp: filteredProjects_eq matchesTags_iff Set_has_def filter_empty_conv)

theorem unmatched_tag_empties_visible_set_witness:
  "Set_has [''Naming'', ''DeFi''] ''DeFi''
   \<and> filteredProjects toLowerCase allProjects
        \<lparr>searchTerm = ''miden'', selectedTags = [''Naming'', ''DeFi'']\<rparr> = []"
proof -
  let ?st = "\<lparr>searchTerm = ''miden'', selectedTags = [''Naming'', ''DeFi'']\<rparr>"
  have h: "Set_has (selectedTags ?st) ''DeFi''"
    by (simp add: Set_has_def)
  have n: "\<forall>project\<in>set allProjects. \<forall>projectTag\<in>set (tags project).
             toLowerCase projectTag \<noteq> toLowerCase ''DeFi''"
    by code_simp
  from unmatched_tag_empties_visible_set [OF h n] h show ?thesis
    by simp
qed

text \<open>
  Claim C10. The tag filter is antitone in the set of selected tags: for every project,
  search term and selections S and T with every member of S a member of T, a project that
  passes the tag predicate under T passes it under S; hence the visible set under T is a
  subsequence of the visible set under S, and a click that selects one more tag gives a
  subsequence of the visible set before the click.
\<close>

theorem tag_filter_is_antitone:
  assumes "set S \<subseteq> set T"
  shows "(matchesTags lower (Array_from T) project \<longrightarrow> matchesTags lower (Array_from S) project)
    \<and> subseq (filteredProjects lower projects \<lparr>searchTerm = typed, selectedTags = T\<rparr>)
             (filteredProjects lower projects \<lparr>searchTerm = typed, selectedTags = S\<rparr>)
    \<and> (tag \<notin> set (selectedTags st) \<longrightarrow>
         subseq (filteredProjects lower projects (handleTagClick tag st))
                (filteredProjects lower projects st))"
proof -
  have a: "matchesTags lower T p \<Longrightarrow> matchesTags lower S p" for p
    using assms by (rule matchesTags_antitone)
  have b: "subseq (filteredProjects lower projects \<lparr>searchTerm = typed, selectedTags = T\<rparr>)
             (filteredProjects lower projects \<lparr>searchTerm = typed, selectedTags = S\<rparr>)"
    unfolding filteredProjects_eq by (rule subseq_filter_stronger) (simp add: a)
  have c: "subseq (filteredProjects lower projects (handleTagClick tag st))
                (filteredProjects lower projects st)" if "tag \<notin> set (selectedTags st)"
    unfolding filteredProjects_eq searchTerm_handleTagClick
    using that
    by (intro subseq_filter_stronger) (auto simp: selectedTags_handleTagClick matchesTags_iff)
  show ?thesis
    using a b c by (simp add: Array_from_def)
qed

theorem tag_filter_is_antitone_witness:
  "set [''Naming''] \<subseteq> set [''Naming'', ''DeFi'']
   \<and> subseq (filteredProjects toLowerCase allProjects
               \<lparr>searchTerm = ''miden'', selectedTags = [''Naming'', ''DeFi'']\<rparr>)
            (filteredProjects toLowerCase allProjects
               \<lparr>searchTerm = ''miden'', selectedTags = [''Naming'']\<rparr>)
   \<and> filteredProjects toLowerCase allProjects
        \<lparr>searchTerm = ''miden'', selectedTags = [''Naming'']\<rparr> = allProjects
   \<and> filteredProjects toLowerCase allProjects
        \<lparr>searchTerm = ''miden'', selectedTags = [''Naming'', ''DeFi'']\<rparr> = []"
proof -
  have sub: "set [''Naming''] \<subseteq> set [''Naming'', ''DeFi'']"
    by simp
  have run: "filteredProjects toLowerCase allProjects
        \<lparr>searchTerm = ''miden'', selectedTags = [''Naming'']\<rparr> = allProjects"
    by code_simp
  have run': "filteredProjects toLowerCase allProjects
        \<lparr>searchTerm = ''miden'', selectedTags = [''Naming'', ''DeFi'']\<rparr> = []"
    by code_simp
  from tag_filter_is_antitone
      [OF sub, where lower = toLowerCase and projects = allProjects and typed = "''miden''"]
  have "subseq (filteredProjects toLowerCase allProjects
               \<lparr>searchTerm = ''miden'', selectedTags = [''Naming'', ''DeFi'']\<rparr>)
            (filteredProjects toLowerCase allProjects
               \<lparr>searchTerm = ''miden'', selectedTags = [''Naming'']\<rparr>)"
    by blast
  with sub run run' show ?thesis by blast
qed

end
